theory Spec2Isabelle
  imports Complex_Main "HOL-Library.AList"
begin

section \<open>Strings and cells\<close>

text \<open>
  A Python \<open>str\<close> is a sequence of Unicode code points, so it is modelled as a list of
  naturals; \<open>py\<close> embeds an ASCII literal. A cell of a table holds text, a number, a
  boolean or nothing (the missing value of an empty spreadsheet cell).
\<close>

type_synonym pystr = "nat list"

definition py :: "string \<Rightarrow> pystr" where
  "py s = map of_char s"

datatype cell = CStr pystr | CFloat real | CInt int | CBool bool | CMissing

section \<open>Character classes of the regular expressions\<close>

text \<open>
  \<open>is_space\<close> is the class \<open>\s\<close> of a \<open>str\<close> pattern, which is also what
  \<open>str.strip()\<close> removes: the code points for which \<open>str.isspace\<close> holds.
\<close>

definition is_space :: "nat \<Rightarrow> bool" where
  "is_space c \<longleftrightarrow>
     (9 \<le> c \<and> c \<le> 13) \<or> (28 \<le> c \<and> c \<le> 32) \<or> c = 133 \<or> c = 160 \<or> c = 5760 \<or>
     (8192 \<le> c \<and> c \<le> 8202) \<or> c = 8232 \<or> c = 8233 \<or> c = 8239 \<or> c = 8287 \<or> c = 12288"

definition ascii_alnum :: "nat \<Rightarrow> bool" where
  "ascii_alnum c \<longleftrightarrow> (48 \<le> c \<and> c \<le> 57) \<or> (65 \<le> c \<and> c \<le> 90) \<or> (97 \<le> c \<and> c \<le> 122)"

text \<open>
  \<open>is_word\<close> is the class \<open>\w\<close>: alphanumeric or the underscore. Below 128 the
  alphanumerics are the ASCII letters and digits; above, they are given by the Unicode
  character database, which is the parameter \<open>uni\<close> of everything that sanitizes.
\<close>

definition is_word :: "(nat \<Rightarrow> bool) \<Rightarrow> nat \<Rightarrow> bool" where
  "is_word uni c \<longleftrightarrow> (if c < 128 then ascii_alnum c else uni c) \<or> c = 95"

text \<open>The class \<open>[\w\s.,!?]\<close>, whose complement the first substitution replaces.\<close>

definition kept :: "(nat \<Rightarrow> bool) \<Rightarrow> nat \<Rightarrow> bool" where
  "kept uni c \<longleftrightarrow> is_word uni c \<or> is_space c \<or> c = 46 \<or> c = 44 \<or> c = 33 \<or> c = 63"

text \<open>The class \<open>[\<bullet>\-\*]\<close> of the second substitution: U+2022, the hyphen, the asterisk.\<close>

definition bullet :: "nat \<Rightarrow> bool" where
  "bullet c \<longleftrightarrow> c = 8226 \<or> c = 45 \<or> c = 42"

section \<open>sanitize\_text\<close>

definition remove_special :: "(nat \<Rightarrow> bool) \<Rightarrow> pystr \<Rightarrow> pystr" where
  "remove_special uni s = map (\<lambda>c. if kept uni c then c else 32) s"

definition remove_bullets :: "pystr \<Rightarrow> pystr" where
  "remove_bullets s = map (\<lambda>c. if bullet c then 32 else c) s"

text \<open>\<open>re.sub(r'\s+', ' ', text)\<close>: every maximal run of whitespace becomes one space.\<close>

function collapse_spaces :: "pystr \<Rightarrow> pystr" where
  "collapse_spaces [] = []"
| "collapse_spaces (c # cs) =
     (if is_space c then 32 # collapse_spaces (dropWhile is_space cs)
      else c # collapse_spaces cs)"
  by pat_completeness auto
termination
  by (relation "measure length") (auto simp: le_imp_less_Suc length_dropWhile_le)

definition strip :: "pystr \<Rightarrow> pystr" where
  "strip s = rev (dropWhile is_space (rev (dropWhile is_space s)))"

definition sanitize_text :: "(nat \<Rightarrow> bool) \<Rightarrow> cell \<Rightarrow> pystr" where
  "sanitize_text uni text =
     (case text of
        CStr s \<Rightarrow> strip (collapse_spaces (remove_bullets (remove_special uni s)))
      | _ \<Rightarrow> [])"

text \<open>
  What the last step leaves: every whitespace character is a space, and no two stand
  side by side.
\<close>

fun tidy :: "pystr \<Rightarrow> bool" where
  "tidy [] = True"
| "tidy [c] = (is_space c \<longrightarrow> c = 32)"
| "tidy (a # b # cs) = ((is_space a \<longrightarrow> a = 32 \<and> \<not> is_space b) \<and> tidy (b # cs))"

section \<open>Tables\<close>

text \<open>
  A \<open>DataFrame\<close> is its number of rows and its columns in order, each a label with one
  cell per row. Labels are text, as \<open>read_excel\<close> gives them for a header row of text,
  and \<open>read_excel\<close> never gives two columns the same label. \<open>wf_df\<close> says so, and
  that every column has one cell per row.
\<close>

record dataframe =
  nrows :: nat
  columns :: "(pystr \<times> cell list) list"

definition colnames :: "dataframe \<Rightarrow> pystr list" where
  "colnames df = map fst (columns df)"

definition wf_df :: "dataframe \<Rightarrow> bool" where
  "wf_df df \<longleftrightarrow> distinct (colnames df) \<and> list_all (\<lambda>(n, vs). length vs = nrows df) (columns df)"

text \<open>The exceptions that the modelled code can raise; \<open>KeyError\<close> carries the key.\<close>

datatype error = KeyError "pystr option" | ValueError | Raised pystr

text \<open>\<open>df[c]\<close> reads a column and raises \<open>KeyError\<close> when there is none.\<close>

definition get_col :: "pystr \<Rightarrow> dataframe \<Rightarrow> error + cell list" where
  "get_col c df =
     (case map_of (columns df) c of None \<Rightarrow> Inl (KeyError (Some c)) | Some vs \<Rightarrow> Inr vs)"

text \<open>
  \<open>df[c] = values\<close> with a list: the column is replaced where it stands, or appended as
  the last column; a list of the wrong length raises \<open>ValueError\<close>.
\<close>

definition set_col :: "pystr \<Rightarrow> cell list \<Rightarrow> dataframe \<Rightarrow> error + dataframe" where
  "set_col c vs df =
     (if length vs = nrows df then Inr (df\<lparr>columns := AList.update c vs (columns df)\<rparr>)
      else Inl ValueError)"

section \<open>analyze\_retrodata\<close>

text \<open>
  The dictionary that \<open>analyze_text\<close> returns, read at its keys \<open>compound\<close>,
  \<open>category\<close> and \<open>color\<close>. The analyzer itself is a parameter: a function from the
  text to that dictionary, or to the exception it raises.
\<close>

record sentiment =
  compound :: real
  category :: pystr
  color :: pystr

type_synonym analyzer = "pystr \<Rightarrow> error + sentiment"

definition sentiment_columns :: "pystr list" where
  "sentiment_columns =
     [py ''What Did Not Go Well?'',
      py ''What Went Well?'',
      py ''Reason for Churn'',
      py ''Improvement opportunity'',
      py ''Reason for reported success rate'']"

definition score_name :: "pystr \<Rightarrow> pystr" where
  "score_name col = col @ py ''_Sentiment_Score''"

definition category_name :: "pystr \<Rightarrow> pystr" where
  "category_name col = col @ py ''_Sentiment_Category''"

definition color_name :: "pystr \<Rightarrow> pystr" where
  "color_name col = col @ py ''_Color''"

definition derived_names :: "pystr \<Rightarrow> pystr list" where
  "derived_names col = [score_name col, category_name col, color_name col]"

text \<open>The inner loop: one call of the analyzer per text, the first exception ends it.\<close>

fun analyze_all :: "analyzer \<Rightarrow> pystr list \<Rightarrow> error + sentiment list" where
  "analyze_all an [] = Inr []"
| "analyze_all an (t # ts) =
     (case an t of
        Inl e \<Rightarrow> Inl e
      | Inr s \<Rightarrow> (case analyze_all an ts of Inl e \<Rightarrow> Inl e | Inr ss \<Rightarrow> Inr (s # ss)))"

text \<open>
  The body of the outer loop for one configured column, on the table as it is by then.
  The result is the exception raised, if any, and the table as the body left it. The
  sanitized cells are all text, so \<open>str(text)\<close> in the inner loop is the identity.
\<close>

definition analyze_column ::
  "(nat \<Rightarrow> bool) \<Rightarrow> analyzer \<Rightarrow> pystr \<Rightarrow> dataframe \<Rightarrow> error option \<times> dataframe" where
  "analyze_column uni an col df =
     (case map_of (columns df) col of
        None \<Rightarrow> (None, df)
      | Some vs \<Rightarrow>
          let texts = map (sanitize_text uni) vs;
              df1 = df\<lparr>columns := AList.update col (map CStr texts) (columns df)\<rparr>
          in (case analyze_all an texts of
                Inl e \<Rightarrow> (Some e, df1)
              | Inr ss \<Rightarrow>
                 (case set_col (score_name col) (map (\<lambda>s. CFloat (compound s)) ss) df1 of
                    Inl e \<Rightarrow> (Some e, df1)
                  | Inr df2 \<Rightarrow>
                     (case set_col (category_name col) (map (\<lambda>s. CStr (category s)) ss) df2 of
                        Inl e \<Rightarrow> (Some e, df2)
                      | Inr df3 \<Rightarrow>
                         (case set_col (color_name col) (map (\<lambda>s. CStr (color s)) ss) df3 of
                            Inl e \<Rightarrow> (Some e, df3)
                          | Inr df4 \<Rightarrow> (None, df4))))))"

fun analyze_columns ::
  "(nat \<Rightarrow> bool) \<Rightarrow> analyzer \<Rightarrow> pystr list \<Rightarrow> dataframe \<Rightarrow> error option \<times> dataframe" where
  "analyze_columns uni an [] df = (None, df)"
| "analyze_columns uni an (col # cols) df =
     (case analyze_column uni an col df of
        (Some e, df') \<Rightarrow> (Some e, df')
      | (None, df') \<Rightarrow> analyze_columns uni an cols df')"

text \<open>
  The function works on the object it is given. Objects live in a store, a table at each
  address; the call takes the address of its argument, changes the store there and
  returns that same address, or raises with the store as the loop left it.
\<close>

type_synonym addr = nat
type_synonym store = "addr \<Rightarrow> dataframe"

definition analyze_retrodata ::
  "(nat \<Rightarrow> bool) \<Rightarrow> analyzer \<Rightarrow> addr \<Rightarrow> store \<Rightarrow> (error + addr) \<times> store" where
  "analyze_retrodata uni an df h =
     (case analyze_columns uni an sentiment_columns (h df) of
        (None, d) \<Rightarrow> (Inr df, h(df := d))
      | (Some e, d) \<Rightarrow> (Inl e, h(df := d)))"

section \<open>Filtering and sorting in main\<close>

text \<open>\<open>Series.isin(values)\<close> on one cell; the values are category labels, so text.\<close>

definition isin :: "pystr list \<Rightarrow> cell \<Rightarrow> bool" where
  "isin vals c = (case c of CStr s \<Rightarrow> s \<in> set vals | _ \<Rightarrow> False)"

text \<open>The five columns that the filter expression reads, as it names them, in its order.\<close>

definition filter_columns :: "pystr list" where
  "filter_columns =
     [py ''What Did Not Go Well?_Sentiment_Category'',
      py ''What Went Well?_Sentiment_Category'',
      py ''Reason for Churn_Sentiment_Category'',
      py ''Improvement opportunity_Sentiment_Category'',
      py ''Reason for reported success rate_Sentiment_Category'']"

fun isin_masks :: "pystr list \<Rightarrow> pystr list \<Rightarrow> dataframe \<Rightarrow> error + bool list list" where
  "isin_masks vals [] df = Inr []"
| "isin_masks vals (c # cs) df =
     (case get_col c df of
        Inl e \<Rightarrow> Inl e
      | Inr vs \<Rightarrow>
         (case isin_masks vals cs df of Inl e \<Rightarrow> Inl e | Inr ms \<Rightarrow> Inr (map (isin vals) vs # ms)))"

definition mask_or :: "bool list \<Rightarrow> bool list \<Rightarrow> bool list" where
  "mask_or m1 m2 = map (\<lambda>(x, y). x \<or> y) (zip m1 m2)"

fun any_mask :: "bool list list \<Rightarrow> bool list" where
  "any_mask [] = []"
| "any_mask [m] = m"
| "any_mask (m1 # m2 # ms) = any_mask (mask_or m1 m2 # ms)"

text \<open>\<open>df[mask]\<close>: the rows where the mask holds, in their order.\<close>

definition select_rows :: "bool list \<Rightarrow> dataframe \<Rightarrow> dataframe" where
  "select_rows keep df =
     df\<lparr>nrows := length (filter id keep),
        columns := map (\<lambda>(n, vs). (n, map snd (filter fst (zip keep vs)))) (columns df)\<rparr>"

definition apply_filter :: "pystr list \<Rightarrow> dataframe \<Rightarrow> error + dataframe" where
  "apply_filter sentiment_filter df =
     (if sentiment_filter \<noteq> [] then
        (case isin_masks sentiment_filter filter_columns df of
           Inl e \<Rightarrow> Inl e
         | Inr ms \<Rightarrow> Inr (select_rows (any_mask ms) df))
      else Inr df)"

text \<open>
  \<open>sort_values(by=sort_by, ascending=False)\<close>. The order of the rows is the library's
  own work: \<open>order\<close> is its parameter here, from the cells of the column to the row
  positions in the order of the result. What the call itself decides is modelled: a
  \<open>by\<close> argument that names no column raises \<open>KeyError\<close>.
\<close>

definition take_rows :: "nat list \<Rightarrow> dataframe \<Rightarrow> dataframe" where
  "take_rows idx df =
     df\<lparr>nrows := length (filter (\<lambda>i. i < nrows df) idx),
        columns := map (\<lambda>(n, vs). (n, map (\<lambda>i. vs ! i) (filter (\<lambda>i. i < length vs) idx)))
                     (columns df)\<rparr>"

definition sort_values ::
  "(cell list \<Rightarrow> nat list) \<Rightarrow> pystr option \<Rightarrow> dataframe \<Rightarrow> error + dataframe" where
  "sort_values order key df =
     (case key of
        None \<Rightarrow> Inl (KeyError None)
      | Some c \<Rightarrow>
         (case map_of (columns df) c of
            None \<Rightarrow> Inl (KeyError (Some c))
          | Some vs \<Rightarrow> Inr (take_rows (order vs) df)))"

text \<open>
  Lines 117 to 129 of \<open>main\<close>. \<open>sort_by\<close> is what the select box returned: one
  of the columns that end in \<open>_Sentiment_Score\<close>, or \<open>None\<close> when the table
  has no such column.
\<close>

definition filter_and_sort ::
  "(cell list \<Rightarrow> nat list) \<Rightarrow> pystr list \<Rightarrow> pystr option \<Rightarrow> dataframe \<Rightarrow> error + dataframe" where
  "filter_and_sort order sentiment_filter sort_by df =
     (case apply_filter sentiment_filter df of
        Inl e \<Rightarrow> Inl e
      | Inr filtered_df \<Rightarrow> sort_values order sort_by filtered_df)"

section \<open>The scorer\<close>

text \<open>
  Modelled from the spec: \<open>SentimentAnalyzer.analyze_text\<close> of
  \<open>utils/sentiment_analyzer.py\<close>, which the sources at hand do not have. The
  scorer hands the text to a lexicon primitive for the compound score, which may fail
  (\<open>None\<close>); a failure counts as compound 0. The category follows the table of
  thresholds, the colour follows the category.
\<close>

datatype category = very_negative | negative | neutral | positive | very_positive

definition classify :: "real \<Rightarrow> category" where
  "classify c =
     (if c \<le> - 0.6 then very_negative
      else if c \<le> - 0.2 then negative
      else if c < 0.2 then neutral
      else if c < 0.6 then positive
      else very_positive)"

fun rank :: "category \<Rightarrow> nat" where
  "rank very_negative = 0"
| "rank negative = 1"
| "rank neutral = 2"
| "rank positive = 3"
| "rank very_positive = 4"

fun label :: "category \<Rightarrow> pystr" where
  "label very_negative = py ''very_negative''"
| "label negative = py ''negative''"
| "label neutral = py ''neutral''"
| "label positive = py ''positive''"
| "label very_positive = py ''very_positive''"

fun color_of :: "category \<Rightarrow> pystr" where
  "color_of very_negative = py ''strong red''"
| "color_of negative = py ''light red/orange''"
| "color_of neutral = py ''gray/yellow''"
| "color_of positive = py ''light green''"
| "color_of very_positive = py ''strong green''"

definition score :: "(pystr \<Rightarrow> real option) \<Rightarrow> pystr \<Rightarrow> sentiment" where
  "score primitive text =
     (let c = (case primitive text of None \<Rightarrow> 0 | Some v \<Rightarrow> v)
      in \<lparr>compound = c, category = label (classify c), color = color_of (classify c)\<rparr>)"

definition scorer :: "(pystr \<Rightarrow> real option) \<Rightarrow> analyzer" where
  "scorer primitive = (\<lambda>text. Inr (score primitive text))"

section \<open>The table that a call without exceptions leaves\<close>

text \<open>
  For an analyzer that never raises, \<open>f\<close> being what it returns, the loop body for
  a column that is there amounts to four assignments, and the loop to one such step for
  each configured column that is there. The proofs go through these two functions.
\<close>

definition with_derived ::
  "(nat \<Rightarrow> bool) \<Rightarrow> (pystr \<Rightarrow> sentiment) \<Rightarrow> pystr \<Rightarrow> cell list \<Rightarrow> dataframe \<Rightarrow> dataframe" where
  "with_derived uni f c vs df =
     df\<lparr>columns :=
        AList.update (color_name c) (map (\<lambda>v. CStr (color (f (sanitize_text uni v)))) vs)
         (AList.update (category_name c) (map (\<lambda>v. CStr (category (f (sanitize_text uni v)))) vs)
           (AList.update (score_name c) (map (\<lambda>v. CFloat (compound (f (sanitize_text uni v)))) vs)
             (AList.update c (map (\<lambda>v. CStr (sanitize_text uni v)) vs) (columns df))))\<rparr>"

fun augment_all ::
  "(nat \<Rightarrow> bool) \<Rightarrow> (pystr \<Rightarrow> sentiment) \<Rightarrow> pystr list \<Rightarrow> dataframe \<Rightarrow> dataframe" where
  "augment_all uni f [] df = df"
| "augment_all uni f (c # cs) df =
     (case map_of (columns df) c of
        None \<Rightarrow> augment_all uni f cs df
      | Some vs \<Rightarrow> augment_all uni f cs (with_derived uni f c vs df))"

section \<open>Tables and collaborators of the examples\<close>

text \<open>
  A character table for the examples: the Latin-1 letters above 127 and nothing beyond.
\<close>

definition latin_alnum :: "nat \<Rightarrow> bool" where
  "latin_alnum c \<longleftrightarrow> (192 \<le> c \<and> c \<le> 214) \<or> (216 \<le> c \<and> c \<le> 246) \<or> (248 \<le> c \<and> c \<le> 255)"

text \<open>
  An analyzer that finds every text neutral, a table of two rows with one of the
  configured columns, and a store that holds it.
\<close>

definition flat_result :: "pystr \<Rightarrow> sentiment" where
  "flat_result text = \<lparr>compound = 0, category = py ''neutral'', color = py ''#808080''\<rparr>"

definition flat_analyzer :: analyzer where
  "flat_analyzer = (\<lambda>text. Inr (flat_result text))"

definition retro_table :: dataframe where
  "retro_table =
     \<lparr>nrows = 2,
      columns = [(py ''issue_key'', [CStr (py ''A-1''), CStr (py ''A-2'')]),
                 (py ''What Went Well?'', [CStr (py ''Great  work!''), CMissing])]\<rparr>"

definition retro_store :: store where
  "retro_store = (\<lambda>a. retro_table)"

text \<open>
  A table that has a configured column and already a column with the name of one of
  its derived columns, as an exported result that is uploaded again has.
\<close>

definition export_table :: dataframe where
  "export_table =
     \<lparr>nrows = 1,
      columns = [(py ''What Went Well?'', [CStr (py ''Great work'')]),
                 (py ''What Went Well?_Color'', [CStr (py ''red'')])]\<rparr>"

definition export_store :: store where
  "export_store = (\<lambda>a. export_table)"

text \<open>A lexicon primitive that fails on one text, and a table with that text.\<close>

definition flaky_primitive :: "pystr \<Rightarrow> real option" where
  "flaky_primitive text = (if text = py ''boom'' then None else Some 0.75)"

definition churn_table :: dataframe where
  "churn_table =
     \<lparr>nrows = 2,
      columns = [(py ''Reason for Churn'', [CStr (py ''boom''), CStr (py ''Great work'')])]\<rparr>"

definition churn_store :: store where
  "churn_store = (\<lambda>a. churn_table)"

text \<open>An analyzer that raises on that text instead of returning.\<close>

definition raising_analyzer :: analyzer where
  "raising_analyzer =
     (\<lambda>text. if text = py ''boom'' then Inl (Raised (py ''lexicon'')) else Inr (flat_result text))"




section \<open>Properties of sanitize\_text\<close>

lemma is_space_32: "is_space 32"
  by (simp add: is_space_def)

lemma collapse_head:
  "collapse_spaces s = y # ys \<Longrightarrow> is_space y \<Longrightarrow> \<exists>x xs. s = x # xs \<and> is_space x"
  by (cases s) (auto split: if_splits)

lemma collapse_dropWhile_head:
  "collapse_spaces (dropWhile is_space cs) = y # ys \<Longrightarrow> \<not> is_space y"
proof
  assume a: "collapse_spaces (dropWhile is_space cs) = y # ys" and b: "is_space y"
  from collapse_head [OF a b] obtain x xs where x: "dropWhile is_space cs = x # xs" "is_space x"
    by blast
  then have "dropWhile is_space cs \<noteq> []" by simp
  then have "\<not> is_space (hd (dropWhile is_space cs))" by (rule hd_dropWhile)
  with x show False by simp
qed

lemma tidy_Cons_nonspace: "\<not> is_space c \<Longrightarrow> tidy (c # s) = tidy s"
  by (cases s) auto

lemma tidy_collapse: "tidy (collapse_spaces s)"
proof (induction s rule: collapse_spaces.induct)
  case 1
  show ?case by simp
next
  case (2 c cs)
  show ?case
  proof (cases "is_space c")
    case True
    with 2 have ih: "tidy (collapse_spaces (dropWhile is_space cs))" by simp
    show ?thesis
    proof (cases "collapse_spaces (dropWhile is_space cs)")
      case Nil
      with True show ?thesis by simp
    next
      case (Cons y ys)
      from collapse_dropWhile_head [OF Cons] have "\<not> is_space y" .
      with True ih Cons show ?thesis by simp
    qed
  next
    case False
    with 2 have "tidy (collapse_spaces cs)" by simp
    with False show ?thesis by (simp add: tidy_Cons_nonspace)
  qed
qed

lemma collapse_tidy: "tidy s \<Longrightarrow> collapse_spaces s = s"
proof (induction s rule: tidy.induct)
  case 1
  show ?case by simp
next
  case (2 c)
  then show ?case by simp
next
  case (3 a b cs)
  then show ?case by (cases "is_space a") auto
qed

lemma tidy_append_right: "tidy (xs @ ys) \<Longrightarrow> tidy ys"
proof (induction xs)
  case Nil
  then show ?case by simp
next
  case (Cons a xs)
  then show ?case by (cases "xs @ ys") auto
qed

lemma tidy_append_left: "tidy (xs @ ys) \<Longrightarrow> tidy xs"
proof (induction xs rule: tidy.induct)
  case 1
  show ?case by simp
next
  case (2 c)
  then show ?case by (cases ys) auto
next
  case (3 a b cs)
  then show ?case by auto
qed

lemma strip_decomp:
  "\<exists>pre post. s = pre @ strip s @ post"
proof -
  let ?u = "dropWhile is_space s"
  have 1: "s = takeWhile is_space s @ ?u" by simp
  have "rev (takeWhile is_space (rev ?u) @ dropWhile is_space (rev ?u)) = rev (rev ?u)"
    by (simp only: takeWhile_dropWhile_id)
  then have 2: "?u = strip s @ rev (takeWhile is_space (rev ?u))"
    by (simp only: rev_append rev_rev_ident strip_def)
  from 1 2 have "s = takeWhile is_space s @ strip s @ rev (takeWhile is_space (rev ?u))"
    by simp
  then show ?thesis by blast
qed

lemma tidy_strip: "tidy s \<Longrightarrow> tidy (strip s)"
proof -
  assume t: "tidy s"
  obtain pre post where d: "s = pre @ strip s @ post" using strip_decomp by blast
  from t d have "tidy (pre @ strip s @ post)" by simp
  then have "tidy (strip s @ post)" by (rule tidy_append_right)
  then show ?thesis by (rule tidy_append_left)
qed

lemma strip_last: "strip s \<noteq> [] \<Longrightarrow> \<not> is_space (last (strip s))"
proof -
  assume n: "strip s \<noteq> []"
  let ?d = "dropWhile is_space (rev (dropWhile is_space s))"
  from n have "?d \<noteq> []" by (simp add: strip_def)
  then have "\<not> is_space (hd ?d)" by (rule hd_dropWhile)
  moreover have "last (strip s) = hd ?d" using \<open>?d \<noteq> []\<close> by (simp add: strip_def last_rev)
  ultimately show ?thesis by simp
qed

lemma last_dropWhile_keep: "dropWhile P xs \<noteq> [] \<Longrightarrow> last (dropWhile P xs) = last xs"
  by (induction xs) (auto split: if_splits)

lemma strip_hd: "strip s \<noteq> [] \<Longrightarrow> \<not> is_space (hd (strip s))"
proof -
  assume n: "strip s \<noteq> []"
  let ?u = "dropWhile is_space s"
  let ?d = "dropWhile is_space (rev ?u)"
  from n have d: "?d \<noteq> []" by (simp add: strip_def)
  have u: "?u \<noteq> []"
  proof
    assume "?u = []"
    then have "?d = []" by (simp only: rev.simps(1) dropWhile.simps(1))
    with d show False by simp
  qed
  have "hd (strip s) = last ?d" using d by (simp add: strip_def hd_rev)
  also have "\<dots> = last (rev ?u)" using d by (rule last_dropWhile_keep)
  also have "\<dots> = hd ?u" using u by (simp add: last_rev)
  finally have "hd (strip s) = hd ?u" .
  moreover have "\<not> is_space (hd ?u)" using u by (rule hd_dropWhile)
  ultimately show ?thesis by simp
qed

lemma strip_fixed:
  assumes "s \<noteq> [] \<Longrightarrow> \<not> is_space (hd s)" and "s \<noteq> [] \<Longrightarrow> \<not> is_space (last s)"
  shows "strip s = s"
proof (cases "s = []")
  case True
  then show ?thesis by (simp add: strip_def)
next
  case False
  with assms have h: "\<not> is_space (hd s)" and l: "\<not> is_space (last s)" by auto
  from False h have 1: "dropWhile is_space s = s" by (cases s) auto
  from False l have "\<not> is_space (hd (rev s))" by (simp add: hd_rev)
  with False have 2: "dropWhile is_space (rev s) = rev s" by (cases "rev s") auto
  from 1 2 show ?thesis by (simp add: strip_def)
qed

lemma tidy_nth:
  "tidy s \<Longrightarrow> Suc i < length s \<Longrightarrow> \<not> (is_space (s ! i) \<and> is_space (s ! Suc i))"
proof (induction s arbitrary: i rule: tidy.induct)
  case 1
  then show ?case by simp
next
  case (2 c)
  then show ?case by simp
next
  case (3 a b cs)
  show ?case
  proof (cases i)
    case 0
    with 3 show ?thesis by auto
  next
    case (Suc j)
    with 3 show ?thesis by auto
  qed
qed

lemma set_collapse: "set (collapse_spaces s) \<subseteq> insert 32 (set s)"
proof (induction s rule: collapse_spaces.induct)
  case 1
  show ?case by simp
next
  case (2 c cs)
  show ?case
  proof (cases "is_space c")
    case True
    with 2 have "set (collapse_spaces (dropWhile is_space cs)) \<subseteq> insert 32 (set (dropWhile is_space cs))"
      by simp
    moreover have "set (dropWhile is_space cs) \<subseteq> set cs"
      by (auto dest: set_dropWhileD)
    ultimately show ?thesis using True by auto
  next
    case False
    with 2 show ?thesis by auto
  qed
qed

lemma set_strip: "set (strip s) \<subseteq> set s"
proof -
  obtain pre post where d: "s = pre @ strip s @ post" using strip_decomp by blast
  have "set (strip s) \<subseteq> set (pre @ strip s @ post)" by auto
  with d show ?thesis by simp
qed

lemma kept_32: "kept uni 32"
  by (simp add: kept_def is_space_def)

lemma not_bullet_32: "\<not> bullet 32"
  by (simp add: bullet_def)

lemma cleaned_chars:
  "c \<in> set (remove_bullets (remove_special uni s)) \<Longrightarrow> kept uni c \<and> \<not> bullet c"
  by (auto simp: remove_bullets_def remove_special_def kept_32 not_bullet_32 split: if_splits)

lemma sanitized_chars:
  assumes "c \<in> set (strip (collapse_spaces (remove_bullets (remove_special uni s))))"
  shows "kept uni c \<and> \<not> bullet c"
proof -
  from assms set_strip have "c \<in> set (collapse_spaces (remove_bullets (remove_special uni s)))"
    by blast
  with set_collapse have "c = 32 \<or> c \<in> set (remove_bullets (remove_special uni s))"
    by blast
  then show ?thesis using cleaned_chars kept_32 not_bullet_32 by blast
qed

lemma remove_special_fixed: "\<forall>c\<in>set s. kept uni c \<Longrightarrow> remove_special uni s = s"
  by (simp add: remove_special_def map_idI)

lemma remove_bullets_fixed: "\<forall>c\<in>set s. \<not> bullet c \<Longrightarrow> remove_bullets s = s"
  by (simp add: remove_bullets_def map_idI)

lemma pipeline_tidy: "tidy (strip (collapse_spaces s))"
  by (rule tidy_strip) (rule tidy_collapse)

lemma pipeline_fixed:
  "strip (collapse_spaces (remove_bullets (remove_special uni
     (strip (collapse_spaces (remove_bullets (remove_special uni s))))))) =
   strip (collapse_spaces (remove_bullets (remove_special uni s)))"
proof -
  let ?y = "strip (collapse_spaces (remove_bullets (remove_special uni s)))"
  have 1: "remove_special uni ?y = ?y"
    by (rule remove_special_fixed) (blast dest: sanitized_chars)
  have 2: "remove_bullets ?y = ?y"
    by (rule remove_bullets_fixed) (blast dest: sanitized_chars)
  have 3: "collapse_spaces ?y = ?y"
    by (rule collapse_tidy) (rule pipeline_tidy)
  have 4: "strip ?y = ?y"
    by (rule strip_fixed) (auto dest: strip_hd strip_last)
  show ?thesis by (simp only: 1 2 3 4)
qed

text \<open>
  C4. For every input, of any type, \<open>sanitize_text\<close> returns a string (it has no
  path that raises) in which no two whitespace characters stand side by side and which
  neither starts nor ends with whitespace; for an input that is not a string the result
  is the empty string.
\<close>

theorem sanitize_text_normalised:
  "(\<forall>i. Suc i < length (sanitize_text uni x) \<longrightarrow>
        \<not> (is_space (sanitize_text uni x ! i) \<and> is_space (sanitize_text uni x ! Suc i))) \<and>
   (sanitize_text uni x \<noteq> [] \<longrightarrow>
        \<not> is_space (hd (sanitize_text uni x)) \<and> \<not> is_space (last (sanitize_text uni x))) \<and>
   ((\<forall>s. x \<noteq> CStr s) \<longrightarrow> sanitize_text uni x = [])"
proof (cases x)
  case (CStr s)
  let ?y = "strip (collapse_spaces (remove_bullets (remove_special uni s)))"
  have y: "sanitize_text uni x = ?y" using CStr by (simp add: sanitize_text_def)
  have "tidy ?y" by (rule pipeline_tidy)
  then have a: "\<forall>i. Suc i < length ?y \<longrightarrow> \<not> (is_space (?y ! i) \<and> is_space (?y ! Suc i))"
    using tidy_nth by blast
  have b: "?y \<noteq> [] \<longrightarrow> \<not> is_space (hd ?y) \<and> \<not> is_space (last ?y)"
    using strip_hd strip_last by blast
  from a b CStr show ?thesis unfolding y by blast
qed (simp_all add: sanitize_text_def)

theorem sanitize_text_normalised_witness:
  "sanitize_text latin_alnum (CStr [32, 97, 9, 10, 45, 98, 32]) = [97, 32, 98] \<and>
   Suc 0 < length (sanitize_text latin_alnum (CStr [32, 97, 9, 10, 45, 98, 32])) \<and>
   \<not> (is_space (sanitize_text latin_alnum (CStr [32, 97, 9, 10, 45, 98, 32]) ! 0) \<and>
      is_space (sanitize_text latin_alnum (CStr [32, 97, 9, 10, 45, 98, 32]) ! Suc 0)) \<and>
   \<not> is_space (hd (sanitize_text latin_alnum (CStr [32, 97, 9, 10, 45, 98, 32]))) \<and>
   \<not> is_space (last (sanitize_text latin_alnum (CStr [32, 97, 9, 10, 45, 98, 32]))) \<and>
   (\<forall>s. CMissing \<noteq> CStr s) \<and> sanitize_text latin_alnum CMissing = []"
proof -
  have v: "sanitize_text latin_alnum (CStr [32, 97, 9, 10, 45, 98, 32]) = [97, 32, 98]"
    by (simp add: sanitize_text_def strip_def remove_bullets_def remove_special_def kept_def
        is_word_def is_space_def ascii_alnum_def bullet_def)
  have m: "\<forall>s. CMissing \<noteq> CStr s" by simp
  from sanitize_text_normalised [of latin_alnum "CStr [32, 97, 9, 10, 45, 98, 32]"]
    sanitize_text_normalised [of latin_alnum CMissing] v m
  show ?thesis by simp
qed

text \<open>
  C5. Sanitizing is idempotent: sanitizing a sanitized text returns it as it is.
\<close>

theorem sanitize_text_idempotent:
  "sanitize_text uni (CStr (sanitize_text uni x)) = sanitize_text uni x"
proof (cases x)
  case (CStr s)
  then show ?thesis by (simp add: sanitize_text_def pipeline_fixed)
qed (simp_all add: sanitize_text_def strip_def remove_bullets_def remove_special_def)

text \<open>
  C10, as amended. On the text \<open>Great work!! 100% effort\<close> the result is
  \<open>Great work!! 100 effort\<close>: the percent sign becomes a space and the
  whitespace around it collapses, while the exclamation marks stay, since the first
  substitution keeps \<open>. , ! ?\<close>.
\<close>

theorem sanitize_text_scenario_keeps_exclamations:
  "sanitize_text uni (CStr (py ''Great work!! 100% effort'')) = py ''Great work!! 100 effort''"
  by (simp add: sanitize_text_def py_def strip_def remove_bullets_def remove_special_def
      kept_def is_word_def is_space_def ascii_alnum_def bullet_def)

text \<open>
  The result is not \<open>Great work 100 effort\<close>, the text without the exclamation
  marks.
\<close>

theorem sanitize_text_scenario_counterexample:
  "sanitize_text latin_alnum (CStr (py ''Great work!! 100% effort'')) \<noteq> py ''Great work 100 effort''"
  by (simp add: sanitize_text_def py_def strip_def remove_bullets_def remove_special_def
      kept_def is_word_def is_space_def ascii_alnum_def bullet_def)

section \<open>Properties of the classification\<close>

text \<open>
  C6. The category never goes down as the compound score goes up, and the buckets are
  those of the table of thresholds: \<open>very_negative\<close> up to and including -0.6,
  \<open>negative\<close> above that up to and including -0.2, \<open>neutral\<close> strictly
  between -0.2 and 0.2, \<open>positive\<close> from 0.2 on and below 0.6,
  \<open>very_positive\<close> from 0.6 on.
\<close>

theorem classify_monotone_and_boundaries:
  "(c1 \<le> c2 \<longrightarrow> rank (classify c1) \<le> rank (classify c2)) \<and>
   (classify c = very_negative \<longleftrightarrow> c \<le> - 0.6) \<and>
   (classify c = negative \<longleftrightarrow> - 0.6 < c \<and> c \<le> - 0.2) \<and>
   (classify c = neutral \<longleftrightarrow> - 0.2 < c \<and> c < 0.2) \<and>
   (classify c = positive \<longleftrightarrow> 0.2 \<le> c \<and> c < 0.6) \<and>
   (classify c = very_positive \<longleftrightarrow> 0.6 \<le> c) \<and>
   classify (- 0.6) = very_negative \<and> classify (- 0.2) = negative \<and>
   classify 0.2 = positive \<and> classify 0.6 = very_positive"
  by (auto simp: classify_def)

theorem classify_monotone_and_boundaries_witness:
  "(- 0.7 :: real) \<le> 0.25 \<and> rank (classify (- 0.7)) \<le> rank (classify 0.25) \<and>
   classify (- 0.7) = very_negative \<and> classify 0.25 = positive \<and>
   classify 0.1999 = neutral \<and> classify (- 0.5999) = negative"
  using classify_monotone_and_boundaries [of "- 0.7" "0.25" "- 0.7"]
    classify_monotone_and_boundaries [of 0 0 "0.25"]
    classify_monotone_and_boundaries [of 0 0 "0.1999"]
    classify_monotone_and_boundaries [of 0 0 "- 0.5999"]
  by simp

section \<open>Properties of analyze\_retrodata\<close>

lemma analyze_all_total: "analyze_all (\<lambda>t. Inr (f t)) ts = Inr (map f ts)"
  by (induction ts) auto

lemma in_colnames_iff: "n \<in> set (colnames df) \<longleftrightarrow> map_of (columns df) n \<noteq> None"
  by (simp add: colnames_def map_of_eq_None_iff)

lemma wf_df_iff:
  "wf_df df \<longleftrightarrow>
     distinct (colnames df) \<and> (\<forall>n vs. map_of (columns df) n = Some vs \<longrightarrow> length vs = nrows df)"
proof
  assume w: "wf_df df"
  then have d: "distinct (map fst (columns df))" by (simp add: wf_df_def colnames_def)
  have "\<forall>n vs. map_of (columns df) n = Some vs \<longrightarrow> length vs = nrows df"
  proof (intro allI impI)
    fix n vs assume "map_of (columns df) n = Some vs"
    then have "(n, vs) \<in> set (columns df)" by (rule map_of_SomeD)
    with w show "length vs = nrows df" by (auto simp: wf_df_def list_all_iff)
  qed
  with w show "distinct (colnames df) \<and> (\<forall>n vs. map_of (columns df) n = Some vs \<longrightarrow> length vs = nrows df)"
    by (simp add: wf_df_def)
next
  assume a: "distinct (colnames df) \<and> (\<forall>n vs. map_of (columns df) n = Some vs \<longrightarrow> length vs = nrows df)"
  then have d: "distinct (map fst (columns df))" by (simp add: colnames_def)
  have "\<forall>p\<in>set (columns df). length (snd p) = nrows df"
  proof
    fix p assume "p \<in> set (columns df)"
    then have "(fst p, snd p) \<in> set (columns df)" by simp
    with d have "map_of (columns df) (fst p) = Some (snd p)" by (rule map_of_is_SomeI)
    with a show "length (snd p) = nrows df" by blast
  qed
  with a show "wf_df df" by (auto simp: wf_df_def list_all_iff)
qed

lemma py_nonempty_last: "s \<noteq> [] \<Longrightarrow> last (c @ s) = last s"
  by simp

lemma score_category_neq: "score_name c \<noteq> category_name c'"
proof
  assume "score_name c = category_name c'"
  then have "last (score_name c) = last (category_name c')" by simp
  then show False by (simp add: score_name_def category_name_def py_def)
qed

lemma score_color_neq: "score_name c \<noteq> color_name c'"
proof
  assume "score_name c = color_name c'"
  then have "last (score_name c) = last (color_name c')" by simp
  then show False by (simp add: score_name_def color_name_def py_def)
qed

lemma category_color_neq: "category_name c \<noteq> color_name c'"
proof
  assume "category_name c = color_name c'"
  then have "last (category_name c) = last (color_name c')" by simp
  then show False by (simp add: category_name_def color_name_def py_def)
qed

lemma derived_inj:
  "score_name c = score_name c' \<longleftrightarrow> c = c'"
  "category_name c = category_name c' \<longleftrightarrow> c = c'"
  "color_name c = color_name c' \<longleftrightarrow> c = c'"
  by (simp_all add: score_name_def category_name_def color_name_def)

lemma derived_not_self:
  "score_name c \<noteq> c" "category_name c \<noteq> c" "color_name c \<noteq> c"
  by (simp_all add: score_name_def category_name_def color_name_def py_def)

lemmas derived_neq =
  score_category_neq score_color_neq category_color_neq
  score_category_neq [symmetric] score_color_neq [symmetric] category_color_neq [symmetric]
  derived_not_self derived_not_self [symmetric]

lemma derived_disjoint:
  "c \<noteq> c' \<Longrightarrow> d \<in> set (derived_names c) \<Longrightarrow> d \<notin> set (derived_names c')"
  by (auto simp: derived_names_def derived_inj derived_neq)

lemma with_derived_nrows: "nrows (with_derived uni f c vs df) = nrows df"
  by (simp add: with_derived_def)

lemma with_derived_lookup:
  "map_of (columns (with_derived uni f c vs df)) =
     (map_of (columns df))
       (c \<mapsto> map (\<lambda>v. CStr (sanitize_text uni v)) vs,
        score_name c \<mapsto> map (\<lambda>v. CFloat (compound (f (sanitize_text uni v)))) vs,
        category_name c \<mapsto> map (\<lambda>v. CStr (category (f (sanitize_text uni v)))) vs,
        color_name c \<mapsto> map (\<lambda>v. CStr (color (f (sanitize_text uni v)))) vs)"
  by (simp add: with_derived_def update_conv')

lemma with_derived_frame:
  "n \<noteq> c \<Longrightarrow> n \<notin> set (derived_names c) \<Longrightarrow>
   map_of (columns (with_derived uni f c vs df)) n = map_of (columns df) n"
  by (simp add: with_derived_lookup derived_names_def)

lemma with_derived_colnames:
  assumes "c \<in> set (colnames df)"
  shows "colnames (with_derived uni f c vs df) =
         colnames df @ filter (\<lambda>d. d \<notin> set (colnames df)) (derived_names c)"
  using assms
  by (simp add: with_derived_def colnames_def update_keys derived_names_def derived_neq)

lemma with_derived_wf:
  assumes w: "wf_df df" and c: "map_of (columns df) c = Some vs"
  shows "wf_df (with_derived uni f c vs df)"
proof -
  from w c have l: "length vs = nrows df" by (simp add: wf_df_iff)
  from w have d: "distinct (map fst (columns df))" by (simp add: wf_df_iff colnames_def)
  have "distinct (colnames (with_derived uni f c vs df))"
    using d by (simp add: with_derived_def colnames_def distinct_update)
  moreover have "\<forall>n ws. map_of (columns (with_derived uni f c vs df)) n = Some ws \<longrightarrow>
      length ws = nrows (with_derived uni f c vs df)"
    using w l by (auto simp: with_derived_lookup with_derived_nrows wf_df_iff split: if_splits)
  ultimately show ?thesis by (simp add: wf_df_iff)
qed

lemma analyze_column_absent:
  "map_of (columns df) c = None \<Longrightarrow> analyze_column uni an c df = (None, df)"
  by (simp add: analyze_column_def)

lemma analyze_column_present:
  assumes w: "wf_df df" and c: "map_of (columns df) c = Some vs"
  shows "analyze_column uni (\<lambda>t. Inr (f t)) c df = (None, with_derived uni f c vs df)"
proof -
  from w c have l: "length vs = nrows df" by (simp add: wf_df_iff)
  show ?thesis
    using c l
    by (simp add: analyze_column_def analyze_all_total set_col_def with_derived_def Let_def
        comp_def)
qed

lemma analyze_columns_total:
  "wf_df df \<Longrightarrow> analyze_columns uni (\<lambda>t. Inr (f t)) cs df = (None, augment_all uni f cs df)"
proof (induction cs arbitrary: df)
  case Nil
  show ?case by simp
next
  case (Cons c cs)
  show ?case
  proof (cases "map_of (columns df) c")
    case None
    with Cons show ?thesis by (simp add: analyze_column_absent)
  next
    case (Some vs)
    from Cons.prems Some have "wf_df (with_derived uni f c vs df)" by (rule with_derived_wf)
    then have "analyze_columns uni (\<lambda>t. Inr (f t)) cs (with_derived uni f c vs df) =
        (None, augment_all uni f cs (with_derived uni f c vs df))"
      by (rule Cons.IH)
    with Cons.prems Some show ?thesis by (simp add: analyze_column_present)
  qed
qed

lemma augment_all_wf: "wf_df df \<Longrightarrow> wf_df (augment_all uni f cs df)"
  by (induction cs arbitrary: df) (auto simp: with_derived_wf split: option.splits)

lemma augment_all_nrows: "nrows (augment_all uni f cs df) = nrows df"
  by (induction cs arbitrary: df) (auto simp: with_derived_nrows split: option.splits)

lemma with_derived_present:
  assumes "n \<notin> set (derived_names c)"
  shows "n \<in> set (colnames (with_derived uni f c vs df)) \<longleftrightarrow> n = c \<or> n \<in> set (colnames df)"
  using assms by (auto simp: in_colnames_iff with_derived_lookup derived_names_def)

lemma augment_all_frame:
  assumes "\<forall>c\<in>set cs. \<forall>c'\<in>set cs. c' \<notin> set (derived_names c)"
    and "\<forall>c\<in>set cs. c \<in> set (colnames df) \<longrightarrow> n \<noteq> c \<and> n \<notin> set (derived_names c)"
  shows "map_of (columns (augment_all uni f cs df)) n = map_of (columns df) n"
  using assms
proof (induction cs arbitrary: df)
  case Nil
  show ?case by simp
next
  case (Cons c cs)
  from Cons.prems(1) have good: "\<forall>a\<in>set cs. \<forall>b\<in>set cs. b \<notin> set (derived_names a)" by simp
  show ?case
  proof (cases "map_of (columns df) c")
    case None
    from Cons.prems(2) have "\<forall>a\<in>set cs. a \<in> set (colnames df) \<longrightarrow> n \<noteq> a \<and> n \<notin> set (derived_names a)"
      by simp
    with good have "map_of (columns (augment_all uni f cs df)) n = map_of (columns df) n"
      by (rule Cons.IH)
    with None show ?thesis by simp
  next
    case (Some vs)
    let ?W = "with_derived uni f c vs df"
    from Some have pc: "c \<in> set (colnames df)" by (simp add: in_colnames_iff)
    with Cons.prems(2) have n: "n \<noteq> c" "n \<notin> set (derived_names c)" by auto
    have "\<forall>a\<in>set cs. a \<in> set (colnames ?W) \<longrightarrow> n \<noteq> a \<and> n \<notin> set (derived_names a)"
    proof (intro ballI impI)
      fix a assume a: "a \<in> set cs" and p: "a \<in> set (colnames ?W)"
      from Cons.prems(1) a have "a \<notin> set (derived_names c)" by simp
      with p have "a = c \<or> a \<in> set (colnames df)" by (simp add: with_derived_present)
      with pc have "a \<in> set (colnames df)" by auto
      with Cons.prems(2) a show "n \<noteq> a \<and> n \<notin> set (derived_names a)" by simp
    qed
    with good have "map_of (columns (augment_all uni f cs ?W)) n = map_of (columns ?W) n"
      by (rule Cons.IH)
    also have "\<dots> = map_of (columns df) n" using n by (rule with_derived_frame)
    finally show ?thesis using Some by simp
  qed
qed

lemma augment_all_effect:
  assumes "distinct cs"
    and "\<forall>c\<in>set cs. \<forall>c'\<in>set cs. c' \<notin> set (derived_names c)"
    and "c \<in> set cs"
    and "map_of (columns df) c = Some vs"
  shows "map_of (columns (augment_all uni f cs df)) c = Some (map (\<lambda>v. CStr (sanitize_text uni v)) vs) \<and>
         map_of (columns (augment_all uni f cs df)) (score_name c) =
           Some (map (\<lambda>v. CFloat (compound (f (sanitize_text uni v)))) vs) \<and>
         map_of (columns (augment_all uni f cs df)) (category_name c) =
           Some (map (\<lambda>v. CStr (category (f (sanitize_text uni v)))) vs) \<and>
         map_of (columns (augment_all uni f cs df)) (color_name c) =
           Some (map (\<lambda>v. CStr (color (f (sanitize_text uni v)))) vs)"
  using assms
proof (induction cs arbitrary: df)
  case Nil
  then show ?case by simp
next
  case (Cons x cs)
  from Cons.prems(2) have good: "\<forall>a\<in>set cs. \<forall>b\<in>set cs. b \<notin> set (derived_names a)" by simp
  from Cons.prems(1) have dist: "distinct cs" and xs: "x \<notin> set cs" by simp_all
  show ?case
  proof (cases "x = c")
    case True
    let ?W = "with_derived uni f c vs df"
    have fr: "map_of (columns (augment_all uni f cs ?W)) n = map_of (columns ?W) n"
      if n: "n = c \<or> n \<in> set (derived_names c)" for n
    proof (rule augment_all_frame [OF good], intro ballI impI)
      fix a assume a: "a \<in> set cs"
      from a xs True have ne: "a \<noteq> c" by auto
      from Cons.prems(2) a True have 1: "c \<notin> set (derived_names a)" by simp
      from Cons.prems(2) a True have 2: "a \<notin> set (derived_names c)" by simp
      from n show "n \<noteq> a \<and> n \<notin> set (derived_names a)"
      proof
        assume "n = c"
        with ne 1 show ?thesis by simp
      next
        assume d: "n \<in> set (derived_names c)"
        with 2 have "n \<noteq> a" by auto
        moreover from ne d have "n \<notin> set (derived_names a)" by (metis derived_disjoint)
        ultimately show ?thesis by simp
      qed
    qed
    have "augment_all uni f (x # cs) df = augment_all uni f cs ?W"
      using True Cons.prems(4) by simp
    then show ?thesis
      by (simp add: fr derived_names_def with_derived_lookup derived_neq)
  next
    case False
    with Cons.prems(3) have cin: "c \<in> set cs" by simp
    show ?thesis
    proof (cases "map_of (columns df) x")
      case None
      with Cons.IH [OF dist good cin Cons.prems(4)] show ?thesis by simp
    next
      case (Some ws)
      let ?W = "with_derived uni f x ws df"
      from Cons.prems(2) cin have "c \<notin> set (derived_names x)" by simp
      with False have "map_of (columns ?W) c = map_of (columns df) c"
        by (simp add: with_derived_frame)
      with Cons.prems(4) have "map_of (columns ?W) c = Some vs" by simp
      from Cons.IH [OF dist good cin this] Some show ?thesis by simp
    qed
  qed
qed

lemma augment_all_colnames:
  assumes "distinct cs"
    and "\<forall>c\<in>set cs. \<forall>c'\<in>set cs. c' \<notin> set (derived_names c)"
  shows "colnames (augment_all uni f cs df) =
         colnames df @
         filter (\<lambda>d. d \<notin> set (colnames df))
           (concat (map derived_names (filter (\<lambda>c. c \<in> set (colnames df)) cs)))"
  using assms
proof (induction cs arbitrary: df)
  case Nil
  show ?case by simp
next
  case (Cons x cs)
  from Cons.prems(2) have good: "\<forall>a\<in>set cs. \<forall>b\<in>set cs. b \<notin> set (derived_names a)" by simp
  from Cons.prems(1) have dist: "distinct cs" and xs: "x \<notin> set cs" by simp_all
  show ?case
  proof (cases "map_of (columns df) x")
    case None
    then have "x \<notin> set (colnames df)" by (simp add: in_colnames_iff)
    with Cons.IH [OF dist good, of df] None show ?thesis by simp
  next
    case (Some ws)
    let ?W = "with_derived uni f x ws df"
    from Some have px: "x \<in> set (colnames df)" by (simp add: in_colnames_iff)
    then have cw: "colnames ?W = colnames df @ filter (\<lambda>d. d \<notin> set (colnames df)) (derived_names x)"
      by (rule with_derived_colnames)
    have same_cols: "filter (\<lambda>c. c \<in> set (colnames ?W)) cs = filter (\<lambda>c. c \<in> set (colnames df)) cs"
    proof (rule filter_cong [OF refl])
      fix a assume a: "a \<in> set cs"
      with Cons.prems(2) have "a \<notin> set (derived_names x)" by simp
      moreover from a xs have "a \<noteq> x" by auto
      ultimately show "(a \<in> set (colnames ?W)) = (a \<in> set (colnames df))"
        by (simp add: with_derived_present)
    qed
    let ?D = "concat (map derived_names (filter (\<lambda>c. c \<in> set (colnames df)) cs))"
    have same_new: "filter (\<lambda>d. d \<notin> set (colnames ?W)) ?D = filter (\<lambda>d. d \<notin> set (colnames df)) ?D"
    proof (rule filter_cong [OF refl])
      fix d assume "d \<in> set ?D"
      then obtain a where a: "a \<in> set cs" and d: "d \<in> set (derived_names a)" by auto
      from a xs have "a \<noteq> x" by auto
      with d have "d \<notin> set (derived_names x)" by (metis derived_disjoint)
      then show "(d \<notin> set (colnames ?W)) = (d \<notin> set (colnames df))"
        by (simp add: cw)
    qed
    have "colnames (augment_all uni f (x # cs) df) = colnames (augment_all uni f cs ?W)"
      using Some by simp
    also have "\<dots> = colnames ?W @ filter (\<lambda>d. d \<notin> set (colnames ?W))
        (concat (map derived_names (filter (\<lambda>c. c \<in> set (colnames ?W)) cs)))"
      by (rule Cons.IH [OF dist good])
    also have "\<dots> = colnames ?W @ filter (\<lambda>d. d \<notin> set (colnames df)) ?D"
      by (simp only: same_cols same_new)
    finally show ?thesis using px by (simp add: cw)
  qed
qed

lemma sentiment_columns_distinct: "distinct sentiment_columns"
  by (simp add: sentiment_columns_def py_def)

lemma sentiment_columns_good:
  "\<forall>c\<in>set sentiment_columns. \<forall>c'\<in>set sentiment_columns. c' \<notin> set (derived_names c)"
  by (simp add: sentiment_columns_def derived_names_def score_name_def category_name_def
      color_name_def py_def)

lemmas eval_defs =
  analyze_retrodata_def analyze_column_def set_col_def sentiment_columns_def
  score_name_def category_name_def color_name_def derived_names_def py_def
  sanitize_text_def strip_def remove_bullets_def remove_special_def kept_def is_word_def
  is_space_def ascii_alnum_def bullet_def colnames_def wf_df_def Let_def

text \<open>
  C1, as amended. On a well-formed table and with an analyzer that does not raise,
  \<open>analyze_retrodata\<close> returns; the table has the rows it had, in number and in
  place (every column is the old column cell by cell, sanitized where it is a configured
  column); each configured column that is there has its three derived columns
  afterwards, with the score, the category and the colour of each sanitized cell. Of
  these, the ones whose name the table did not have are added after the old columns, in
  the order of the configuration, and one whose name the table already had is
  overwritten where it stands. Every column that is neither a configured column that is
  there nor one of its derived columns is as it was, so a configured column that is not
  there is passed over without a trace.
\<close>

theorem analyze_retrodata_rows_and_columns:
  assumes "wf_df (h df)"
  shows "\<exists>h'. analyze_retrodata uni (\<lambda>t. Inr (f t)) df h = (Inr df, h') \<and>
     wf_df (h' df) \<and> nrows (h' df) = nrows (h df) \<and>
     colnames (h' df) =
       colnames (h df) @
       filter (\<lambda>d. d \<notin> set (colnames (h df)))
         (concat (map derived_names (filter (\<lambda>c. c \<in> set (colnames (h df))) sentiment_columns))) \<and>
     (\<forall>n. (\<forall>c\<in>set sentiment_columns. c \<in> set (colnames (h df)) \<longrightarrow>
              n \<noteq> c \<and> n \<notin> set (derived_names c)) \<longrightarrow>
          map_of (columns (h' df)) n = map_of (columns (h df)) n) \<and>
     (\<forall>c\<in>set sentiment_columns. \<forall>vs. map_of (columns (h df)) c = Some vs \<longrightarrow>
          map_of (columns (h' df)) c = Some (map (\<lambda>v. CStr (sanitize_text uni v)) vs) \<and>
          map_of (columns (h' df)) (score_name c) =
            Some (map (\<lambda>v. CFloat (compound (f (sanitize_text uni v)))) vs) \<and>
          map_of (columns (h' df)) (category_name c) =
            Some (map (\<lambda>v. CStr (category (f (sanitize_text uni v)))) vs) \<and>
          map_of (columns (h' df)) (color_name c) =
            Some (map (\<lambda>v. CStr (color (f (sanitize_text uni v)))) vs))"
proof -
  let ?d = "augment_all uni f sentiment_columns (h df)"
  let ?h = "h(df := ?d)"
  have run: "analyze_retrodata uni (\<lambda>t. Inr (f t)) df h = (Inr df, ?h)"
    using assms by (simp add: analyze_retrodata_def analyze_columns_total)
  have at: "?h df = ?d" by simp
  have 1: "wf_df ?d" using assms by (rule augment_all_wf)
  have 2: "nrows ?d = nrows (h df)" by (rule augment_all_nrows)
  have 3: "colnames ?d =
       colnames (h df) @
       filter (\<lambda>d. d \<notin> set (colnames (h df)))
         (concat (map derived_names (filter (\<lambda>c. c \<in> set (colnames (h df))) sentiment_columns)))"
    by (rule augment_all_colnames [OF sentiment_columns_distinct sentiment_columns_good])
  have 4: "\<forall>n. (\<forall>c\<in>set sentiment_columns. c \<in> set (colnames (h df)) \<longrightarrow>
              n \<noteq> c \<and> n \<notin> set (derived_names c)) \<longrightarrow>
          map_of (columns ?d) n = map_of (columns (h df)) n"
    using augment_all_frame [OF sentiment_columns_good] by blast
  have 5: "\<forall>c\<in>set sentiment_columns. \<forall>vs. map_of (columns (h df)) c = Some vs \<longrightarrow>
          map_of (columns ?d) c = Some (map (\<lambda>v. CStr (sanitize_text uni v)) vs) \<and>
          map_of (columns ?d) (score_name c) =
            Some (map (\<lambda>v. CFloat (compound (f (sanitize_text uni v)))) vs) \<and>
          map_of (columns ?d) (category_name c) =
            Some (map (\<lambda>v. CStr (category (f (sanitize_text uni v)))) vs) \<and>
          map_of (columns ?d) (color_name c) =
            Some (map (\<lambda>v. CStr (color (f (sanitize_text uni v)))) vs)"
    using augment_all_effect [OF sentiment_columns_distinct sentiment_columns_good] by blast
  show ?thesis
    apply (rule exI [of _ ?h])
    apply (simp only: at)
    using run 1 2 3 4 5 apply blast
    done
qed

lemma retro_run:
  "analyze_retrodata latin_alnum flat_analyzer 0 retro_store =
     (Inr 0, retro_store(0 :=
       \<lparr>nrows = 2,
        columns = [(py ''issue_key'', [CStr (py ''A-1''), CStr (py ''A-2'')]),
                   (py ''What Went Well?'', [CStr (py ''Great work!''), CStr []]),
                   (py ''What Went Well?_Sentiment_Score'', [CFloat 0, CFloat 0]),
                   (py ''What Went Well?_Sentiment_Category'', [CStr (py ''neutral''), CStr (py ''neutral'')]),
                   (py ''What Went Well?_Color'', [CStr (py ''#808080''), CStr (py ''#808080'')])]\<rparr>))"
  by (simp add: eval_defs flat_analyzer_def flat_result_def retro_store_def retro_table_def)

theorem analyze_retrodata_rows_and_columns_witness:
  "wf_df (retro_store 0) \<and>
   (\<exists>h'. analyze_retrodata latin_alnum (\<lambda>t. Inr (flat_result t)) 0 retro_store = (Inr 0, h') \<and>
      nrows (h' 0) = 2 \<and>
      colnames (h' 0) =
        [py ''issue_key'', py ''What Went Well?'', py ''What Went Well?_Sentiment_Score'',
         py ''What Went Well?_Sentiment_Category'', py ''What Went Well?_Color''] \<and>
      map_of (columns (h' 0)) (py ''issue_key'') = Some [CStr (py ''A-1''), CStr (py ''A-2'')] \<and>
      map_of (columns (h' 0)) (py ''What Went Well?'') = Some [CStr (py ''Great work!''), CStr []] \<and>
      map_of (columns (h' 0)) (py ''What Went Well?_Sentiment_Score'') = Some [CFloat 0, CFloat 0])"
proof -
  have w: "wf_df (retro_store 0)"
    by (simp add: retro_store_def retro_table_def wf_df_def colnames_def py_def)
  from analyze_retrodata_rows_and_columns
    [where h = retro_store and df = 0 and uni = latin_alnum and f = flat_result, OF w]
  obtain h' where
    run: "analyze_retrodata latin_alnum (\<lambda>t. Inr (flat_result t)) 0 retro_store = (Inr 0, h')" and
    rows: "nrows (h' 0) = nrows (retro_store 0)" and
    cols: "colnames (h' 0) =
       colnames (retro_store 0) @
       filter (\<lambda>d. d \<notin> set (colnames (retro_store 0)))
         (concat (map derived_names
            (filter (\<lambda>c. c \<in> set (colnames (retro_store 0))) sentiment_columns)))" and
    frame: "\<forall>n. (\<forall>c\<in>set sentiment_columns. c \<in> set (colnames (retro_store 0)) \<longrightarrow>
              n \<noteq> c \<and> n \<notin> set (derived_names c)) \<longrightarrow>
          map_of (columns (h' 0)) n = map_of (columns (retro_store 0)) n" and
    eff: "\<forall>c\<in>set sentiment_columns. \<forall>vs. map_of (columns (retro_store 0)) c = Some vs \<longrightarrow>
          map_of (columns (h' 0)) c = Some (map (\<lambda>v. CStr (sanitize_text latin_alnum v)) vs) \<and>
          map_of (columns (h' 0)) (score_name c) =
            Some (map (\<lambda>v. CFloat (compound (flat_result (sanitize_text latin_alnum v)))) vs) \<and>
          map_of (columns (h' 0)) (category_name c) =
            Some (map (\<lambda>v. CStr (category (flat_result (sanitize_text latin_alnum v)))) vs) \<and>
          map_of (columns (h' 0)) (color_name c) =
            Some (map (\<lambda>v. CStr (color (flat_result (sanitize_text latin_alnum v)))) vs)"
    by blast
  have r: "nrows (h' 0) = 2" using rows by (simp add: retro_store_def retro_table_def)
  have c: "colnames (h' 0) =
        [py ''issue_key'', py ''What Went Well?'', py ''What Went Well?_Sentiment_Score'',
         py ''What Went Well?_Sentiment_Category'', py ''What Went Well?_Color'']"
    unfolding cols
    by (simp add: retro_store_def retro_table_def colnames_def sentiment_columns_def
        derived_names_def score_name_def category_name_def color_name_def py_def)
  have "map_of (columns (h' 0)) (py ''issue_key'') = map_of (columns (retro_store 0)) (py ''issue_key'')"
    by (rule frame [rule_format])
       (auto simp: retro_store_def retro_table_def colnames_def sentiment_columns_def
        derived_names_def score_name_def category_name_def color_name_def py_def)
  then have k: "map_of (columns (h' 0)) (py ''issue_key'') = Some [CStr (py ''A-1''), CStr (py ''A-2'')]"
    by (simp add: retro_store_def retro_table_def py_def)
  have m: "py ''What Went Well?'' \<in> set sentiment_columns"
    by (simp add: sentiment_columns_def)
  have v: "map_of (columns (retro_store 0)) (py ''What Went Well?'') =
      Some [CStr (py ''Great  work!''), CMissing]"
    by (simp add: retro_store_def retro_table_def py_def)
  from eff [rule_format, OF m v]
  have t: "map_of (columns (h' 0)) (py ''What Went Well?'') = Some [CStr (py ''Great work!''), CStr []]"
    and s: "map_of (columns (h' 0)) (py ''What Went Well?_Sentiment_Score'') = Some [CFloat 0, CFloat 0]"
    by (simp_all add: eval_defs flat_result_def)
  from w run r c k t s show ?thesis by blast
qed

text \<open>
  On a table that already has one of the three names, two columns are added, not three,
  and the caller's column of that name is overwritten.
\<close>

theorem analyze_retrodata_three_columns_counterexample:
  "wf_df (export_store 0) \<and>
   colnames (export_store 0) = [py ''What Went Well?'', py ''What Went Well?_Color''] \<and>
   colnames (snd (analyze_retrodata latin_alnum flat_analyzer 0 export_store) 0) =
     [py ''What Went Well?'', py ''What Went Well?_Color'',
      py ''What Went Well?_Sentiment_Score'', py ''What Went Well?_Sentiment_Category''] \<and>
   length (colnames (snd (analyze_retrodata latin_alnum flat_analyzer 0 export_store) 0)) \<noteq>
     length (colnames (export_store 0)) + 3 \<and>
   map_of (columns (export_store 0)) (py ''What Went Well?_Color'') = Some [CStr (py ''red'')] \<and>
   map_of (columns (snd (analyze_retrodata latin_alnum flat_analyzer 0 export_store) 0))
     (py ''What Went Well?_Color'') = Some [CStr (py ''#808080'')]"
  by (simp add: eval_defs flat_analyzer_def flat_result_def export_store_def export_table_def)

lemma analyze_retrodata_run:
  "wf_df (h df) \<Longrightarrow>
   analyze_retrodata uni (\<lambda>t. Inr (f t)) df h =
     (Inr df, h(df := augment_all uni f sentiment_columns (h df)))"
  by (simp add: analyze_retrodata_def analyze_columns_total)

lemma score_failed: "primitive t = None \<Longrightarrow>
    compound (score primitive t) = 0 \<and> category (score primitive t) = py ''neutral''"
  by (simp add: score_def classify_def)

lemma score_succeeded: "primitive t = Some v \<Longrightarrow>
    compound (score primitive t) = v \<and> category (score primitive t) = label (classify v)"
  by (simp add: score_def)

text \<open>
  C7. With the scorer of the specification, whose lexicon primitive may fail on any
  text, \<open>analyze_retrodata\<close> returns on every well-formed table; a cell on which
  the primitive fails gets the score 0 and the category \<open>neutral\<close>, and every other
  cell gets the score and the category of what the primitive returned.
\<close>

theorem scoring_failure_is_neutral:
  assumes "wf_df (h df)"
  shows "\<exists>h'. analyze_retrodata uni (scorer primitive) df h = (Inr df, h') \<and>
    (\<forall>c\<in>set sentiment_columns. \<forall>vs. map_of (columns (h df)) c = Some vs \<longrightarrow>
       (\<exists>sc ca. map_of (columns (h' df)) (score_name c) = Some sc \<and>
                 map_of (columns (h' df)) (category_name c) = Some ca \<and>
                 length sc = length vs \<and> length ca = length vs \<and>
          (\<forall>i<length vs.
             (primitive (sanitize_text uni (vs ! i)) = None \<longrightarrow>
                sc ! i = CFloat 0 \<and> ca ! i = CStr (py ''neutral'')) \<and>
             (\<forall>v. primitive (sanitize_text uni (vs ! i)) = Some v \<longrightarrow>
                sc ! i = CFloat v \<and> ca ! i = CStr (label (classify v))))))"
proof -
  let ?f = "score primitive"
  let ?d = "augment_all uni ?f sentiment_columns (h df)"
  let ?h = "h(df := ?d)"
  have run: "analyze_retrodata uni (scorer primitive) df h = (Inr df, ?h)"
    unfolding scorer_def using assms by (rule analyze_retrodata_run)
  have cells: "\<exists>sc ca. map_of (columns ?d) (score_name c) = Some sc \<and>
                 map_of (columns ?d) (category_name c) = Some ca \<and>
                 length sc = length vs \<and> length ca = length vs \<and>
          (\<forall>i<length vs.
             (primitive (sanitize_text uni (vs ! i)) = None \<longrightarrow>
                sc ! i = CFloat 0 \<and> ca ! i = CStr (py ''neutral'')) \<and>
             (\<forall>v. primitive (sanitize_text uni (vs ! i)) = Some v \<longrightarrow>
                sc ! i = CFloat v \<and> ca ! i = CStr (label (classify v))))"
    if c: "c \<in> set sentiment_columns" and vs: "map_of (columns (h df)) c = Some vs" for c vs
  proof -
    let ?sc = "map (\<lambda>v. CFloat (compound (?f (sanitize_text uni v)))) vs"
    let ?ca = "map (\<lambda>v. CStr (category (?f (sanitize_text uni v)))) vs"
    from augment_all_effect [OF sentiment_columns_distinct sentiment_columns_good c vs]
    have 1: "map_of (columns ?d) (score_name c) = Some ?sc"
      and 2: "map_of (columns ?d) (category_name c) = Some ?ca"
      by blast+
    have 3: "\<forall>i<length vs.
             (primitive (sanitize_text uni (vs ! i)) = None \<longrightarrow>
                ?sc ! i = CFloat 0 \<and> ?ca ! i = CStr (py ''neutral'')) \<and>
             (\<forall>v. primitive (sanitize_text uni (vs ! i)) = Some v \<longrightarrow>
                ?sc ! i = CFloat v \<and> ?ca ! i = CStr (label (classify v)))"
      by (simp add: score_failed score_succeeded)
    from 1 2 3 show ?thesis by (intro exI [of _ ?sc] exI [of _ ?ca]) simp
  qed
  show ?thesis
    apply (rule exI [of _ ?h])
    apply (simp only: fun_upd_same)
    using run cells apply blast
    done
qed

theorem scoring_failure_is_neutral_witness:
  "wf_df (churn_store 0) \<and>
   (\<exists>h'. analyze_retrodata latin_alnum (scorer flaky_primitive) 0 churn_store = (Inr 0, h') \<and>
      map_of (columns (h' 0)) (py ''Reason for Churn_Sentiment_Score'') = Some [CFloat 0, CFloat 0.75] \<and>
      map_of (columns (h' 0)) (py ''Reason for Churn_Sentiment_Category'') =
        Some [CStr (py ''neutral''), CStr (py ''very_positive'')])"
proof -
  have w: "wf_df (churn_store 0)"
    by (simp add: churn_store_def churn_table_def wf_df_def colnames_def py_def)
  have m: "py ''Reason for Churn'' \<in> set sentiment_columns"
    by (simp add: sentiment_columns_def)
  have v: "map_of (columns (churn_store 0)) (py ''Reason for Churn'') =
      Some [CStr (py ''boom''), CStr (py ''Great work'')]"
    by (simp add: churn_store_def churn_table_def py_def)
  have s0: "sanitize_text latin_alnum (CStr (py ''boom'')) = py ''boom''"
    by (simp add: eval_defs)
  have s1: "sanitize_text latin_alnum (CStr (py ''Great work'')) = py ''Great work''"
    by (simp add: eval_defs)
  have p0: "flaky_primitive (py ''boom'') = None"
    by (simp add: flaky_primitive_def)
  have p1: "flaky_primitive (py ''Great work'') = Some 0.75"
    by (simp add: flaky_primitive_def py_def)
  from scoring_failure_is_neutral
    [where h = churn_store and df = 0 and uni = latin_alnum and primitive = flaky_primitive, OF w]
  obtain h' where
    run: "analyze_retrodata latin_alnum (scorer flaky_primitive) 0 churn_store = (Inr 0, h')" and
    eff: "\<forall>c\<in>set sentiment_columns. \<forall>vs. map_of (columns (churn_store 0)) c = Some vs \<longrightarrow>
       (\<exists>sc ca. map_of (columns (h' 0)) (score_name c) = Some sc \<and>
                 map_of (columns (h' 0)) (category_name c) = Some ca \<and>
                 length sc = length vs \<and> length ca = length vs \<and>
          (\<forall>i<length vs.
             (flaky_primitive (sanitize_text latin_alnum (vs ! i)) = None \<longrightarrow>
                sc ! i = CFloat 0 \<and> ca ! i = CStr (py ''neutral'')) \<and>
             (\<forall>v. flaky_primitive (sanitize_text latin_alnum (vs ! i)) = Some v \<longrightarrow>
                sc ! i = CFloat v \<and> ca ! i = CStr (label (classify v)))))"
    by blast
  from eff [rule_format, OF m v] obtain sc ca where
    sc: "map_of (columns (h' 0)) (score_name (py ''Reason for Churn'')) = Some sc" and
    ca: "map_of (columns (h' 0)) (category_name (py ''Reason for Churn'')) = Some ca" and
    l: "length sc = 2" "length ca = 2" and
    cells: "\<forall>i<2.
             (flaky_primitive (sanitize_text latin_alnum ([CStr (py ''boom''), CStr (py ''Great work'')] ! i)) = None \<longrightarrow>
                sc ! i = CFloat 0 \<and> ca ! i = CStr (py ''neutral'')) \<and>
             (\<forall>v. flaky_primitive (sanitize_text latin_alnum ([CStr (py ''boom''), CStr (py ''Great work'')] ! i)) = Some v \<longrightarrow>
                sc ! i = CFloat v \<and> ca ! i = CStr (label (classify v)))"
    by auto
  from cells [rule_format, of 0] s0 p0 have c0: "sc ! 0 = CFloat 0" "ca ! 0 = CStr (py ''neutral'')"
    by simp_all
  from cells [rule_format, of 1] s1 p1 have c1: "sc ! 1 = CFloat 0.75" "ca ! 1 = CStr (label (classify 0.75))"
    by simp_all
  have "classify 0.75 = very_positive" by (simp add: classify_def)
  with c1 have c1': "ca ! 1 = CStr (py ''very_positive'')" by simp
  from l c0 c1 have sc': "sc = [CFloat 0, CFloat 0.75]"
    by (cases sc; cases "tl sc") auto
  from l c0 c1' have ca': "ca = [CStr (py ''neutral''), CStr (py ''very_positive'')]"
    by (cases ca; cases "tl ca") auto
  from sc sc' have 1: "map_of (columns (h' 0)) (py ''Reason for Churn_Sentiment_Score'') = Some [CFloat 0, CFloat 0.75]"
    by (simp add: score_name_def py_def)
  from ca ca' have 2: "map_of (columns (h' 0)) (py ''Reason for Churn_Sentiment_Category'') =
        Some [CStr (py ''neutral''), CStr (py ''very_positive'')]"
    by (simp add: category_name_def py_def)
  from w run 1 2 show ?thesis by blast
qed

text \<open>
  The loop of \<open>analyze_retrodata\<close> has no handler of its own: an exception that
  leaves the analyzer leaves the function too, with the column sanitized and no
  derived column added.
\<close>

lemma analyze_retrodata_propagates:
  "analyze_retrodata latin_alnum raising_analyzer 0 churn_store =
     (Inl (Raised (py ''lexicon'')),
      churn_store(0 := \<lparr>nrows = 2,
        columns = [(py ''Reason for Churn'', [CStr (py ''boom''), CStr (py ''Great work'')])]\<rparr>))"
  by (simp add: eval_defs raising_analyzer_def flat_result_def churn_store_def churn_table_def)

text \<open>
  C9, as amended. \<open>analyze_retrodata\<close> works on the object it is given: it returns
  the address it was called with, it leaves every other object of the store alone, and
  after a call that returns the caller's table holds the sanitized text in each
  configured column it has.
\<close>

theorem analyze_retrodata_in_place:
  "(\<forall>b. b \<noteq> df \<longrightarrow> snd (analyze_retrodata uni an df h) b = h b) \<and>
   (\<forall>r. fst (analyze_retrodata uni an df h) = Inr r \<longrightarrow> r = df) \<and>
   (wf_df (h df) \<longrightarrow>
      fst (analyze_retrodata uni (\<lambda>t. Inr (f t)) df h) = Inr df \<and>
      (\<forall>c\<in>set sentiment_columns. \<forall>vs. map_of (columns (h df)) c = Some vs \<longrightarrow>
         map_of (columns (snd (analyze_retrodata uni (\<lambda>t. Inr (f t)) df h) df)) c =
           Some (map (\<lambda>v. CStr (sanitize_text uni v)) vs)))"
proof (intro conjI allI impI)
  fix b assume "b \<noteq> df"
  then show "snd (analyze_retrodata uni an df h) b = h b"
    by (simp add: analyze_retrodata_def split: prod.splits option.splits)
next
  fix r assume "fst (analyze_retrodata uni an df h) = Inr r"
  then show "r = df"
    by (simp add: analyze_retrodata_def split: prod.splits option.splits)
next
  assume "wf_df (h df)"
  then show "fst (analyze_retrodata uni (\<lambda>t. Inr (f t)) df h) = Inr df"
    by (simp add: analyze_retrodata_run)
next
  assume w: "wf_df (h df)"
  show "\<forall>c\<in>set sentiment_columns. \<forall>vs. map_of (columns (h df)) c = Some vs \<longrightarrow>
         map_of (columns (snd (analyze_retrodata uni (\<lambda>t. Inr (f t)) df h) df)) c =
           Some (map (\<lambda>v. CStr (sanitize_text uni v)) vs)"
    using w augment_all_effect [OF sentiment_columns_distinct sentiment_columns_good]
    by (simp add: analyze_retrodata_run)
qed

theorem analyze_retrodata_in_place_witness:
  "(1::nat) \<noteq> 0 \<and> snd (analyze_retrodata latin_alnum flat_analyzer 0 retro_store) 1 = retro_store 1 \<and>
   fst (analyze_retrodata latin_alnum flat_analyzer 0 retro_store) = Inr 0 \<and>
   wf_df (retro_store 0) \<and>
   map_of (columns (retro_store 0)) (py ''What Went Well?'') = Some [CStr (py ''Great  work!''), CMissing] \<and>
   map_of (columns (snd (analyze_retrodata latin_alnum flat_analyzer 0 retro_store) 0))
     (py ''What Went Well?'') = Some [CStr (py ''Great work!''), CStr []]"
proof -
  have w: "wf_df (retro_store 0)"
    by (simp add: retro_store_def retro_table_def wf_df_def colnames_def py_def)
  have m: "py ''What Went Well?'' \<in> set sentiment_columns"
    by (simp add: sentiment_columns_def)
  have v: "map_of (columns (retro_store 0)) (py ''What Went Well?'') =
      Some [CStr (py ''Great  work!''), CMissing]"
    by (simp add: retro_store_def retro_table_def py_def)
  note t = analyze_retrodata_in_place
    [where h = retro_store and df = 0 and uni = latin_alnum and an = flat_analyzer and f = flat_result]
  from t have 1: "snd (analyze_retrodata latin_alnum flat_analyzer 0 retro_store) 1 = retro_store 1"
    by simp
  from t w have 2: "fst (analyze_retrodata latin_alnum flat_analyzer 0 retro_store) = Inr 0"
    by (simp add: flat_analyzer_def)
  from t w m v have 3: "map_of (columns (snd (analyze_retrodata latin_alnum flat_analyzer 0 retro_store) 0))
     (py ''What Went Well?'') = Some (map (\<lambda>v. CStr (sanitize_text latin_alnum v)) [CStr (py ''Great  work!''), CMissing])"
    unfolding flat_analyzer_def by blast
  have 4: "map (\<lambda>v. CStr (sanitize_text latin_alnum v)) [CStr (py ''Great  work!''), CMissing] =
     [CStr (py ''Great work!''), CStr []]"
    by (simp add: eval_defs)
  from 1 2 3 4 w v show ?thesis by simp
qed

text \<open>
  The caller's table is not what it was before the call.
\<close>

theorem analyze_retrodata_copy_counterexample:
  "snd (analyze_retrodata latin_alnum flat_analyzer 0 retro_store) 0 \<noteq> retro_store 0"
  by (simp add: retro_run) (simp add: retro_store_def retro_table_def py_def)

section \<open>Properties of the filter and the sort\<close>


lemmas filter_defs =
  filter_and_sort_def apply_filter_def filter_columns_def get_col_def sort_values_def
  colnames_def py_def

text \<open>
  C2, at a table with one configured column. Both rows have the category
  \<open>neutral\<close> in the one category column there is, so a filter on \<open>neutral\<close>
  should keep both; the filter expression raises \<open>KeyError\<close> on the first of its
  five columns instead.
\<close>

theorem filter_raises_on_absent_column:
  "map_of (columns (snd (analyze_retrodata latin_alnum flat_analyzer 0 retro_store) 0))
     (py ''What Went Well?_Sentiment_Category'') = Some [CStr (py ''neutral''), CStr (py ''neutral'')] \<and>
   apply_filter [py ''neutral''] (snd (analyze_retrodata latin_alnum flat_analyzer 0 retro_store) 0) =
     Inl (KeyError (Some (py ''What Did Not Go Well?_Sentiment_Category'')))"
  by (simp add: retro_run) (simp add: filter_defs)

lemma isin_masks_error: "isin_masks vals cs df = Inl e \<Longrightarrow> \<exists>k. e = KeyError k"
  by (induction cs arbitrary: e) (auto simp: get_col_def split: option.splits sum.splits)

lemma select_rows_lookup_None:
  "map_of (columns (select_rows keep df)) c = None \<longleftrightarrow> map_of (columns df) c = None"
  by (simp add: select_rows_def map_of_eq_None_iff image_image split_def)

lemma apply_filter_error: "apply_filter flt df = Inl e \<Longrightarrow> \<exists>k. e = KeyError k"
  by (auto simp: apply_filter_def split: if_splits sum.splits dest: isin_masks_error)

lemma apply_filter_lookup_None:
  "apply_filter flt df = Inr fdf \<Longrightarrow>
   map_of (columns fdf) c = None \<longleftrightarrow> map_of (columns df) c = None"
  by (auto simp: apply_filter_def select_rows_lookup_None split: if_splits sum.splits)

lemma sort_values_absent:
  "key = None \<or> (\<exists>c. key = Some c \<and> map_of (columns df) c = None) \<Longrightarrow>
   sort_values order key df = Inl (KeyError key)"
  by (auto simp: sort_values_def)

lemma sort_values_error:
  "sort_values order key df = Inl e \<Longrightarrow>
   e = KeyError key \<and> (key = None \<or> (\<exists>c. key = Some c \<and> map_of (columns df) c = None))"
  by (auto simp: sort_values_def split: option.splits)

text \<open>
  Once the filter has passed, a sort column that is not there ends the step in the
  \<open>KeyError\<close> for exactly that key, and nothing else ends it in an error.
\<close>

lemma filter_and_sort_absent:
  assumes "apply_filter flt df = Inr fdf"
    and "sort_by = None \<or> (\<exists>c. sort_by = Some c \<and> c \<notin> set (colnames df))"
  shows "filter_and_sort order flt sort_by df = Inl (KeyError sort_by)"
proof -
  from assms(2) have "sort_by = None \<or> (\<exists>c. sort_by = Some c \<and> map_of (columns df) c = None)"
    by (simp add: in_colnames_iff)
  then have "sort_by = None \<or> (\<exists>c. sort_by = Some c \<and> map_of (columns fdf) c = None)"
    using apply_filter_lookup_None [OF assms(1)] by blast
  then have "sort_values order sort_by fdf = Inl (KeyError sort_by)"
    by (rule sort_values_absent)
  with assms(1) show ?thesis by (simp add: filter_and_sort_def)
qed

lemma filter_and_sort_error:
  assumes "apply_filter flt df = Inr fdf" and "filter_and_sort order flt sort_by df = Inl e"
  shows "e = KeyError sort_by \<and>
         (sort_by = None \<or> (\<exists>c. sort_by = Some c \<and> c \<notin> set (colnames df)))"
proof -
  from assms have "sort_values order sort_by fdf = Inl e" by (simp add: filter_and_sort_def)
  then have "e = KeyError sort_by \<and>
      (sort_by = None \<or> (\<exists>c. sort_by = Some c \<and> map_of (columns fdf) c = None))"
    by (rule sort_values_error)
  then show ?thesis
    using apply_filter_lookup_None [OF assms(1)] by (auto simp: in_colnames_iff)
qed


text \<open>
  Where all five category columns are there, the filter does keep the rows that have a
  selected category in one of them, and an empty selection keeps the table as it is.
\<close>

lemma apply_filter_empty: "apply_filter [] df = Inr df"
  by (simp add: apply_filter_def)

lemma mask_or_nth:
  "length m1 = n \<Longrightarrow> length m2 = n \<Longrightarrow>
   length (mask_or m1 m2) = n \<and> (\<forall>i<n. mask_or m1 m2 ! i \<longleftrightarrow> m1 ! i \<or> m2 ! i)"
  by (simp add: mask_or_def)

lemma any_mask_nth:
  "ms \<noteq> [] \<Longrightarrow> \<forall>m\<in>set ms. length m = n \<Longrightarrow>
   length (any_mask ms) = n \<and> (\<forall>i<n. any_mask ms ! i \<longleftrightarrow> (\<exists>m\<in>set ms. m ! i))"
proof (induction ms rule: any_mask.induct)
  case 1
  then show ?case by simp
next
  case (2 m)
  then show ?case by simp
next
  case (3 m1 m2 ms)
  from "3.prems" have l: "length m1 = n" "length m2 = n" by simp_all
  from mask_or_nth [OF l] have o: "length (mask_or m1 m2) = n"
    "\<forall>i<n. mask_or m1 m2 ! i \<longleftrightarrow> m1 ! i \<or> m2 ! i" by simp_all
  from "3.prems" o have "\<forall>m\<in>set (mask_or m1 m2 # ms). length m = n" by simp
  with "3.IH" have "length (any_mask (mask_or m1 m2 # ms)) = n \<and>
     (\<forall>i<n. any_mask (mask_or m1 m2 # ms) ! i \<longleftrightarrow> (\<exists>m\<in>set (mask_or m1 m2 # ms). m ! i))"
    by simp
  with o show ?case by auto
qed

lemma isin_masks_present:
  "\<forall>c\<in>set cs. map_of (columns df) c \<noteq> None \<Longrightarrow>
   isin_masks vals cs df = Inr (map (\<lambda>c. map (isin vals) (the (map_of (columns df) c))) cs)"
  by (induction cs) (auto simp: get_col_def)

lemma apply_filter_all_present:
  assumes w: "wf_df df" and p: "\<forall>c\<in>set filter_columns. c \<in> set (colnames df)"
    and f: "sentiment_filter \<noteq> []"
  shows "\<exists>keep. apply_filter sentiment_filter df = Inr (select_rows keep df) \<and>
           length keep = nrows df \<and>
           (\<forall>i<nrows df. keep ! i \<longleftrightarrow>
              (\<exists>c\<in>set filter_columns. \<exists>vs. map_of (columns df) c = Some vs \<and>
                 isin sentiment_filter (vs ! i)))"
proof -
  let ?ms = "map (\<lambda>c. map (isin sentiment_filter) (the (map_of (columns df) c))) filter_columns"
  from p have p': "\<forall>c\<in>set filter_columns. map_of (columns df) c \<noteq> None"
    by (simp add: in_colnames_iff)
  then have m: "isin_masks sentiment_filter filter_columns df = Inr ?ms"
    by (rule isin_masks_present)
  have ne: "?ms \<noteq> []" by (simp add: filter_columns_def)
  have len: "\<forall>m\<in>set ?ms. length m = nrows df"
  proof
    fix m assume "m \<in> set ?ms"
    then obtain c where c: "c \<in> set filter_columns"
      and m: "m = map (isin sentiment_filter) (the (map_of (columns df) c))" by auto
    from p' c obtain vs where "map_of (columns df) c = Some vs" by auto
    with w m show "length m = nrows df" by (simp add: wf_df_iff)
  qed
  from any_mask_nth [OF ne len]
  have l: "length (any_mask ?ms) = nrows df"
    and n: "\<forall>i<nrows df. any_mask ?ms ! i \<longleftrightarrow> (\<exists>m\<in>set ?ms. m ! i)" by simp_all
  have "\<forall>i<nrows df. any_mask ?ms ! i \<longleftrightarrow>
          (\<exists>c\<in>set filter_columns. \<exists>vs. map_of (columns df) c = Some vs \<and>
             isin sentiment_filter (vs ! i))"
  proof (intro allI impI)
    fix i assume i: "i < nrows df"
    have "(\<exists>m\<in>set ?ms. m ! i) \<longleftrightarrow>
          (\<exists>c\<in>set filter_columns. \<exists>vs. map_of (columns df) c = Some vs \<and>
             isin sentiment_filter (vs ! i))"
    proof
      assume "\<exists>m\<in>set ?ms. m ! i"
      then obtain c where c: "c \<in> set filter_columns"
        and mi: "map (isin sentiment_filter) (the (map_of (columns df) c)) ! i" by auto
      from p' c obtain vs where vs: "map_of (columns df) c = Some vs" by auto
      with w have "length vs = nrows df" by (simp add: wf_df_iff)
      with i mi vs have "isin sentiment_filter (vs ! i)" by simp
      with c vs show "\<exists>c\<in>set filter_columns. \<exists>vs. map_of (columns df) c = Some vs \<and>
             isin sentiment_filter (vs ! i)" by blast
    next
      assume "\<exists>c\<in>set filter_columns. \<exists>vs. map_of (columns df) c = Some vs \<and>
             isin sentiment_filter (vs ! i)"
      then obtain c vs where c: "c \<in> set filter_columns"
        and vs: "map_of (columns df) c = Some vs" and h: "isin sentiment_filter (vs ! i)" by blast
      from w vs have "length vs = nrows df" by (simp add: wf_df_iff)
      with i h vs have "map (isin sentiment_filter) (the (map_of (columns df) c)) ! i" by simp
      with c show "\<exists>m\<in>set ?ms. m ! i" by auto
    qed
    with n i show "any_mask ?ms ! i \<longleftrightarrow>
          (\<exists>c\<in>set filter_columns. \<exists>vs. map_of (columns df) c = Some vs \<and>
             isin sentiment_filter (vs ! i))" by simp
  qed
  with l m f show ?thesis by (intro exI [of _ "any_mask ?ms"]) (simp add: apply_filter_def)
qed

end
